theory Spec2Isabelle
  imports Main "HOL-Library.AList"
begin

section \<open>Data model\<close>

subsection \<open>Loosely typed data\<close>

text \<open>
  A Go \<^verbatim>\<open>interface{}\<close> value as it occurs inside a \<^verbatim>\<open>map[string]interface{}\<close>:
  nil, a scalar, a nested map or a slice. A Go map is an association list; the order of the
  list stands for the (unspecified) order in which \<^verbatim>\<open>range\<close> visits the entries, so a
  statement proved for every list holds for every iteration order.
\<close>

datatype val = VNil | VScalar string | VMap "(string \<times> val) list" | VSlice "val list"

type_synonym kvs = "(string \<times> val) list"

text \<open>
  \<^verbatim>\<open>data.Object\<close> is \<^verbatim>\<open>map[string]interface{}\<close>: either the nil map (\<open>None\<close>) or a
  map with contents.
\<close>

type_synonym Object = "kvs option"

definition entries :: "Object \<Rightarrow> kvs" where
  "entries d = (case d of None \<Rightarrow> [] | Some kv \<Rightarrow> kv)"

text \<open>
  A callee receives the map by reference: what it writes is seen by the caller, but it can
  neither turn the caller's nil map into a map nor the reverse. \<open>mutate d kv\<close> is the
  caller's map \<open>d\<close> after a callee left the contents \<open>kv\<close> in it.
\<close>

definition mutate :: "Object \<Rightarrow> kvs \<Rightarrow> Object" where
  "mutate d kv = (case d of None \<Rightarrow> None | Some _ \<Rightarrow> Some kv)"

subsection \<open>Errors\<close>

text \<open>
  A Go \<^verbatim>\<open>error\<close> is nil (\<open>None\<close>) or an error value; \<^verbatim>\<open>errors.Join\<close> wraps the
  non-nil errors it is given, in order, and returns nil when there is none.
\<close>

datatype err = Err string | JoinError "err list"

type_synonym error = "err option"

definition errors_Join :: "error list \<Rightarrow> error" where
  "errors_Join errs =
     (let es = List.map_filter id errs in if es = [] then None else Some (JoinError es))"

text \<open>The errors wrapped by an aggregate (\<^verbatim>\<open>Unwrap() []error\<close>); nil wraps none.\<close>

fun constituents :: "error \<Rightarrow> err list" where
  "constituents None = []"
| "constituents (Some (JoinError es)) = es"
| "constituents (Some (Err s)) = []"

subsection \<open>Schemas and mappers\<close>

text \<open>
  A \<^verbatim>\<open>Mapper\<close> is an interface value. A Schema holds a reference \<open>'m\<close> to its mapper
  (or nil), and a method table \<open>impl\<close> gives each reference its three methods. The
  methods act on the data they are given and on the rest of the program state \<open>'w\<close>
  (the mapper's own fields, anything it logs).
\<close>

record Field =
  Type :: string

datatype 'm Schema = Schema
  (ID: string)
  (ResourceFields: "(string \<times> Field) list")
  (InternalSchema: "'m Schema option")
  (Mapper: "'m option")

text \<open>
  \<open>FromInternal\<close> and \<open>ToInternal\<close> return the contents they leave in the map they
  were given (see \<open>mutate\<close>); \<open>ModifySchema\<close> returns the schema and the registry as it
  leaves them.
\<close>

record ('w, 'm, 'r) Mapper =
  FromInternal :: "Object \<Rightarrow> 'w \<Rightarrow> kvs \<times> 'w"
  ToInternal :: "Object \<Rightarrow> 'w \<Rightarrow> (error \<times> kvs) \<times> 'w"
  ModifySchema :: "'m Schema \<Rightarrow> 'r \<Rightarrow> 'w \<Rightarrow> (error \<times> 'm Schema \<times> 'r) \<times> 'w"

type_synonym ('w, 'm, 'r) impl = "'m \<Rightarrow> ('w, 'm, 'r) Mapper"

section \<open>Mapper chains\<close>

text \<open>\<^verbatim>\<open>func (m Mappers) FromInternal(data data.Object)\<close>\<close>

fun Mappers_FromInternal ::
  "('w, 'm, 'r) impl \<Rightarrow> 'm list \<Rightarrow> Object \<Rightarrow> 'w \<Rightarrow> Object \<times> 'w" where
  "Mappers_FromInternal impl [] d w = (d, w)"
| "Mappers_FromInternal impl (mapper # m) d w =
     (case FromInternal (impl mapper) d w of
        (kv, w') \<Rightarrow> Mappers_FromInternal impl m (mutate d kv) w')"

text \<open>
  \<^verbatim>\<open>func (m Mappers) ToInternal(data data.Object) error\<close>: the loop
  \<^verbatim>\<open>for i := len(m) - 1; i >= 0; i--\<close>, with \<open>k = i + 1\<close> counting down to \<open>0\<close>.
\<close>

fun ToInternal_loop ::
  "('w, 'm, 'r) impl \<Rightarrow> 'm list \<Rightarrow> nat \<Rightarrow> error list \<Rightarrow> Object \<Rightarrow> 'w \<Rightarrow>
     (error list \<times> Object) \<times> 'w" where
  "ToInternal_loop impl m 0 errs d w = ((errs, d), w)"
| "ToInternal_loop impl m (Suc i) errs d w =
     (case ToInternal (impl (m ! i)) d w of
        ((e, kv), w') \<Rightarrow> ToInternal_loop impl m i (errs @ [e]) (mutate d kv) w')"

definition Mappers_ToInternal ::
  "('w, 'm, 'r) impl \<Rightarrow> 'm list \<Rightarrow> Object \<Rightarrow> 'w \<Rightarrow> (error \<times> Object) \<times> 'w" where
  "Mappers_ToInternal impl m d w =
     (case ToInternal_loop impl m (length m) [] d w of
        ((errs, d'), w') \<Rightarrow> ((errors_Join errs, d'), w'))"

text \<open>\<^verbatim>\<open>func (m Mappers) ModifySchema(schema *Schema, schemas *Schemas) error\<close>\<close>

fun Mappers_ModifySchema ::
  "('w, 'm, 'r) impl \<Rightarrow> 'm list \<Rightarrow> 'm Schema \<Rightarrow> 'r \<Rightarrow> 'w \<Rightarrow>
     (error \<times> 'm Schema \<times> 'r) \<times> 'w" where
  "Mappers_ModifySchema impl [] schema schemas w = ((None, schema, schemas), w)"
| "Mappers_ModifySchema impl (mapper # m) schema schemas w =
     (case ModifySchema (impl mapper) schema schemas w of
        ((Some e, schema', schemas'), w') \<Rightarrow> ((Some e, schema', schemas'), w')
      | ((None, schema', schemas'), w') \<Rightarrow> Mappers_ModifySchema impl m schema' schemas' w')"

section \<open>The chain as the specification words it\<close>

text \<open>
  Every mapper of a list is run, one after the other in the order of the list, each on the
  data and the state the one before left; every result is kept, nil or not.
\<close>

fun run_every ::
  "('w, 'm, 'r) impl \<Rightarrow> 'm list \<Rightarrow> Object \<Rightarrow> 'w \<Rightarrow> (error list \<times> Object) \<times> 'w" where
  "run_every impl [] d w = (([], d), w)"
| "run_every impl (mapper # m) d w =
     (case ToInternal (impl mapper) d w of
        ((e, kv), w1) \<Rightarrow>
          (case run_every impl m (mutate d kv) w1 of
             ((es, d2), w2) \<Rightarrow> ((e # es, d2), w2)))"

text \<open>
  A logging world: a mapper \<open>n\<close> whose \<open>ModifySchema\<close> appends \<open>n\<close> to the log and fails
  exactly when \<open>n\<close> is odd, and whose \<open>ToInternal\<close> appends \<open>n\<close> and fails exactly when
  \<open>n\<close> is odd; it leaves data, schema and registry as they are.
\<close>

definition logging :: "(nat list, nat, (string \<times> nat Schema) list) impl" where
  "logging n =
     \<lparr> FromInternal = (\<lambda>d w. (entries d, w @ [n])),
       ToInternal = (\<lambda>d w. ((if odd n then Some (Err ''odd'') else None, entries d), w @ [n])),
       ModifySchema = (\<lambda>s r w. ((if odd n then Some (Err ''odd'') else None, s, r), w @ [n])) \<rparr>"

section \<open>The data view\<close>

text \<open>
  Modelled from the spec: the accessors of the Structured Data View (package
  \<^verbatim>\<open>data\<close> and \<^verbatim>\<open>data/convert\<close>, whose source is not among the files verified here).
  \<^verbatim>\<open>convert.ToMapInterface\<close> coerces a generic value to a map-like view: the map itself
  when the value is one, the absent (nil) Object for a missing value or one of the wrong
  shape. It never fails.
\<close>

fun ToMapInterface :: "val \<Rightarrow> Object" where
  "ToMapInterface (VMap kv) = Some kv"
| "ToMapInterface v = None"

text \<open>
  Modelled from the spec: plain key access, tolerating an absent key (and the nil Object),
  for which the value is nil.
\<close>

definition get_value :: "Object \<Rightarrow> string \<Rightarrow> val" where
  "get_value d name = (case map_of (entries d) name of None \<Rightarrow> VNil | Some v \<Rightarrow> v)"

text \<open>
  Modelled from the spec: \<open>object(key)\<close>, the sub-Object stored at \<open>key\<close>, or the absent
  Object if missing or of the wrong shape.
\<close>

definition Object_Map :: "Object \<Rightarrow> string \<Rightarrow> Object" where
  "Object_Map d name = ToMapInterface (get_value d name)"

text \<open>
  Modelled from the spec: \<open>sequence(key)\<close>, the sequence of Objects stored at \<open>key\<close>,
  empty if missing.
\<close>

definition Object_Slice :: "Object \<Rightarrow> string \<Rightarrow> Object list" where
  "Object_Slice d name =
     (case get_value d name of VSlice vs \<Rightarrow> map ToMapInterface vs | _ \<Rightarrow> [])"

text \<open>Modelled from the spec: every value of a map-like container, as an Object.\<close>

definition Object_Values :: "Object \<Rightarrow> Object list" where
  "Object_Values d = map (\<lambda>(k, v). ToMapInterface v) (entries d)"

subsection \<open>Calls on nested data\<close>

text \<open>
  The Objects the accessors return are the nested maps themselves, not copies: what a
  callee writes into one is seen through the parent. In a tree of values this is a
  write-back. \<open>store_val v kv\<close> is the value \<open>v\<close> after the callee that was given
  \<open>ToMapInterface v\<close> left the contents \<open>kv\<close>: a value that is no map was passed as the
  nil Object and stays what it was. \<open>put_field d name v\<close> is \<open>d\<close> with the value stored
  at \<open>name\<close> replaced; an absent key stays absent.
\<close>

fun store_val :: "val \<Rightarrow> kvs \<Rightarrow> val" where
  "store_val (VMap _) kv = VMap kv"
| "store_val v kv = v"

definition put_field :: "Object \<Rightarrow> string \<Rightarrow> val \<Rightarrow> Object" where
  "put_field d name v =
     (case d of
        None \<Rightarrow> None
      | Some kv \<Rightarrow>
          (case map_of kv name of None \<Rightarrow> Some kv | Some _ \<Rightarrow> Some (AList.update name v kv)))"

type_synonym ('a, 'w) call = "Object \<Rightarrow> 'w \<Rightarrow> ('a \<times> kvs) \<times> 'w"

text \<open>\<open>f(convert.ToMapInterface(v))\<close>, for a method \<open>f\<close> of a mapper.\<close>

definition call_val :: "('a, 'w) call \<Rightarrow> val \<Rightarrow> 'w \<Rightarrow> ('a \<times> val) \<times> 'w" where
  "call_val f v w = (case f (ToMapInterface v) w of ((a, kv), w') \<Rightarrow> ((a, store_val v kv), w'))"

text \<open>\<open>f\<close> on each value of a list in turn, every result kept.\<close>

fun call_each :: "('a, 'w) call \<Rightarrow> val list \<Rightarrow> 'w \<Rightarrow> ('a list \<times> val list) \<times> 'w" where
  "call_each f [] w = (([], []), w)"
| "call_each f (v # vs) w =
     (case call_val f v w of
        ((a, v'), w1) \<Rightarrow>
          (case call_each f vs w1 of ((as, vs'), w2) \<Rightarrow> ((a # as, v' # vs'), w2)))"

text \<open>
  The three ways a field's value is handed to a method \<open>f\<close>:
  \<open>f(data.Map(name))\<close>; \<open>f(x)\<close> for each \<open>x\<close> of \<open>data.Slice(name)\<close>; and \<open>f(x)\<close> for each
  \<open>x\<close> of \<open>data.Map(name).Values()\<close>, which is also
  \<open>f(convert.ToMapInterface(x))\<close> for each \<open>x\<close> of \<open>range data.Map(name)\<close>.
  Each returns the results of the calls it made, in order, and the value as the calls left it.
\<close>

definition as_Map :: "('a, 'w) call \<Rightarrow> val \<Rightarrow> 'w \<Rightarrow> ('a list \<times> val) \<times> 'w" where
  "as_Map f v w = (case call_val f v w of ((a, v'), w') \<Rightarrow> (([a], v'), w'))"

definition as_Slice :: "('a, 'w) call \<Rightarrow> val \<Rightarrow> 'w \<Rightarrow> ('a list \<times> val) \<times> 'w" where
  "as_Slice f v w =
     (case v of
        VSlice vs \<Rightarrow> (case call_each f vs w of ((as, vs'), w') \<Rightarrow> ((as, VSlice vs'), w'))
      | _ \<Rightarrow> (([], v), w))"

definition as_Values :: "('a, 'w) call \<Rightarrow> val \<Rightarrow> 'w \<Rightarrow> ('a list \<times> val) \<times> 'w" where
  "as_Values f v w =
     (case v of
        VMap kv \<Rightarrow>
          (case call_each f (map snd kv) w of
             ((as, vs'), w') \<Rightarrow> ((as, VMap (zip (map fst kv) vs')), w'))
      | _ \<Rightarrow> (([], v), w))"

definition at_field ::
  "(val \<Rightarrow> 'w \<Rightarrow> ('a list \<times> val) \<times> 'w) \<Rightarrow> string \<Rightarrow> Object \<Rightarrow> 'w \<Rightarrow>
     ('a list \<times> Object) \<times> 'w" where
  "at_field g name d w =
     (case g (get_value d name) w of ((as, v'), w') \<Rightarrow> ((as, put_field d name v'), w'))"

text \<open>\<open>FromInternal\<close> has no result: as a call it returns \<open>()\<close>.\<close>

definition from_call :: "('w, 'm, 'r) Mapper \<Rightarrow> (unit, 'w) call" where
  "from_call mp d w = (case FromInternal mp d w of (kv, w') \<Rightarrow> (((), kv), w'))"

section \<open>The type mapper\<close>

text \<open>
  \<^verbatim>\<open>type typeMapper struct\<close>. The three bucket maps are association lists from field
  name to the Schema resolved for the field.
\<close>

record 'm typeMapper =
  Mappers :: "'m list"
  root :: bool
  typeName :: string
  subSchemas :: "(string \<times> 'm Schema) list"
  subArraySchemas :: "(string \<times> 'm Schema) list"
  subMapSchemas :: "(string \<times> 'm Schema) list"

subsection \<open>FromInternal\<close>

text \<open>\<^verbatim>\<open>for fieldName, schema := range t.subSchemas\<close> of \<open>FromInternal\<close>.\<close>

fun FromInternal_subSchemas ::
  "('w, 'm, 'r) impl \<Rightarrow> (string \<times> 'm Schema) list \<Rightarrow> Object \<Rightarrow> 'w \<Rightarrow> Object \<times> 'w" where
  "FromInternal_subSchemas impl [] d w = (d, w)"
| "FromInternal_subSchemas impl ((fieldName, schema) # rest) d w =
     (case Mapper schema of
        None \<Rightarrow> FromInternal_subSchemas impl rest d w
      | Some m \<Rightarrow>
          (case at_field (as_Map (from_call (impl m))) fieldName d w of
             ((_, d'), w') \<Rightarrow> FromInternal_subSchemas impl rest d' w'))"

text \<open>\<^verbatim>\<open>for fieldName, schema := range t.subMapSchemas\<close> of \<open>FromInternal\<close>.\<close>

fun FromInternal_subMapSchemas ::
  "('w, 'm, 'r) impl \<Rightarrow> (string \<times> 'm Schema) list \<Rightarrow> Object \<Rightarrow> 'w \<Rightarrow> Object \<times> 'w" where
  "FromInternal_subMapSchemas impl [] d w = (d, w)"
| "FromInternal_subMapSchemas impl ((fieldName, schema) # rest) d w =
     (case Mapper schema of
        None \<Rightarrow> FromInternal_subMapSchemas impl rest d w
      | Some m \<Rightarrow>
          (case at_field (as_Values (from_call (impl m))) fieldName d w of
             ((_, d'), w') \<Rightarrow> FromInternal_subMapSchemas impl rest d' w'))"

text \<open>\<^verbatim>\<open>for fieldName, schema := range t.subArraySchemas\<close> of \<open>FromInternal\<close>.\<close>

fun FromInternal_subArraySchemas ::
  "('w, 'm, 'r) impl \<Rightarrow> (string \<times> 'm Schema) list \<Rightarrow> Object \<Rightarrow> 'w \<Rightarrow> Object \<times> 'w" where
  "FromInternal_subArraySchemas impl [] d w = (d, w)"
| "FromInternal_subArraySchemas impl ((fieldName, schema) # rest) d w =
     (case Mapper schema of
        None \<Rightarrow> FromInternal_subArraySchemas impl rest d w
      | Some m \<Rightarrow>
          (case at_field (as_Slice (from_call (impl m))) fieldName d w of
             ((_, d'), w') \<Rightarrow> FromInternal_subArraySchemas impl rest d' w'))"

text \<open>\<^verbatim>\<open>func (t *typeMapper) FromInternal(data data.Object)\<close>\<close>

definition typeMapper_FromInternal ::
  "('w, 'm, 'r) impl \<Rightarrow> 'm typeMapper \<Rightarrow> Object \<Rightarrow> 'w \<Rightarrow> Object \<times> 'w" where
  "typeMapper_FromInternal impl t d w =
     (case FromInternal_subSchemas impl (subSchemas t) d w of
        (d1, w1) \<Rightarrow>
          (case FromInternal_subMapSchemas impl (subMapSchemas t) d1 w1 of
             (d2, w2) \<Rightarrow>
               (case FromInternal_subArraySchemas impl (subArraySchemas t) d2 w2 of
                  (d3, w3) \<Rightarrow> Mappers_FromInternal impl (Mappers t) d3 w3)))"

subsection \<open>ToInternal\<close>

text \<open>\<^verbatim>\<open>func addError(errors []error, err error) []error\<close>\<close>

definition addError :: "error list \<Rightarrow> error \<Rightarrow> error list" where
  "addError errors e = (if e = None then errors else errors @ [e])"

text \<open>\<^verbatim>\<open>for fieldName, schema := range t.subArraySchemas\<close> of \<open>ToInternal\<close>.\<close>

fun ToInternal_subArraySchemas ::
  "('w, 'm, 'r) impl \<Rightarrow> (string \<times> 'm Schema) list \<Rightarrow> error list \<Rightarrow> Object \<Rightarrow> 'w \<Rightarrow>
     (error list \<times> Object) \<times> 'w" where
  "ToInternal_subArraySchemas impl [] errs d w = ((errs, d), w)"
| "ToInternal_subArraySchemas impl ((fieldName, schema) # rest) errs d w =
     (case Mapper schema of
        None \<Rightarrow> ToInternal_subArraySchemas impl rest errs d w
      | Some m \<Rightarrow>
          (case at_field (as_Slice (ToInternal (impl m))) fieldName d w of
             ((es, d'), w') \<Rightarrow>
               ToInternal_subArraySchemas impl rest (foldl addError errs es) d' w'))"

text \<open>\<^verbatim>\<open>for fieldName, schema := range t.subMapSchemas\<close> of \<open>ToInternal\<close>.\<close>

fun ToInternal_subMapSchemas ::
  "('w, 'm, 'r) impl \<Rightarrow> (string \<times> 'm Schema) list \<Rightarrow> error list \<Rightarrow> Object \<Rightarrow> 'w \<Rightarrow>
     (error list \<times> Object) \<times> 'w" where
  "ToInternal_subMapSchemas impl [] errs d w = ((errs, d), w)"
| "ToInternal_subMapSchemas impl ((fieldName, schema) # rest) errs d w =
     (case Mapper schema of
        None \<Rightarrow> ToInternal_subMapSchemas impl rest errs d w
      | Some m \<Rightarrow>
          (case at_field (as_Values (ToInternal (impl m))) fieldName d w of
             ((es, d'), w') \<Rightarrow>
               ToInternal_subMapSchemas impl rest (foldl addError errs es) d' w'))"

text \<open>\<^verbatim>\<open>for fieldName, schema := range t.subSchemas\<close> of \<open>ToInternal\<close>.\<close>

fun ToInternal_subSchemas ::
  "('w, 'm, 'r) impl \<Rightarrow> (string \<times> 'm Schema) list \<Rightarrow> error list \<Rightarrow> Object \<Rightarrow> 'w \<Rightarrow>
     (error list \<times> Object) \<times> 'w" where
  "ToInternal_subSchemas impl [] errs d w = ((errs, d), w)"
| "ToInternal_subSchemas impl ((fieldName, schema) # rest) errs d w =
     (case Mapper schema of
        None \<Rightarrow> ToInternal_subSchemas impl rest errs d w
      | Some m \<Rightarrow>
          (case at_field (as_Map (ToInternal (impl m))) fieldName d w of
             ((es, d'), w') \<Rightarrow>
               ToInternal_subSchemas impl rest (foldl addError errs es) d' w'))"

text \<open>\<^verbatim>\<open>func (t *typeMapper) ToInternal(data data.Object) error\<close>\<close>

definition typeMapper_ToInternal ::
  "('w, 'm, 'r) impl \<Rightarrow> 'm typeMapper \<Rightarrow> Object \<Rightarrow> 'w \<Rightarrow> (error \<times> Object) \<times> 'w" where
  "typeMapper_ToInternal impl t d w =
     (case Mappers_ToInternal impl (Mappers t) d w of
        ((e, d0), w0) \<Rightarrow>
          (case ToInternal_subArraySchemas impl (subArraySchemas t) (addError [] e) d0 w0 of
             ((errs1, d1), w1) \<Rightarrow>
               (case ToInternal_subMapSchemas impl (subMapSchemas t) errs1 d1 w1 of
                  ((errs2, d2), w2) \<Rightarrow>
                    (case ToInternal_subSchemas impl (subSchemas t) errs2 d2 w2 of
                       ((errs3, d3), w3) \<Rightarrow> ((errors_Join errs3, d3), w3)))))"

subsection \<open>ModifySchema\<close>

text \<open>
  What \<open>ModifySchema\<close> uses of code that is not among the files verified here is a
  parameter: \<^verbatim>\<open>definition.IsArrayType\<close>, \<^verbatim>\<open>definition.IsMapType\<close> and
  \<^verbatim>\<open>definition.SubType\<close> on type strings, and the registry's
  \<^verbatim>\<open>func (s *Schemas) doSchema(name string, lock bool) *Schema\<close>, which returns the
  Schema found (or nil) and the registry as the lookup leaves it. It has no error result.
\<close>

record ('m, 'r) env =
  IsArrayType :: "string \<Rightarrow> bool"
  IsMapType :: "string \<Rightarrow> bool"
  SubType :: "string \<Rightarrow> string"
  doSchema :: "'r \<Rightarrow> string \<Rightarrow> bool \<Rightarrow> 'm Schema option \<times> 'r"

text \<open>The bucket that the variable \<^verbatim>\<open>targetMap\<close> refers to.\<close>

datatype target = SubSchemas | SubArraySchemas | SubMapSchemas

text \<open>\<^verbatim>\<open>targetMap[name] = schema\<close>\<close>

definition put_target :: "target \<Rightarrow> string \<Rightarrow> 'm Schema \<Rightarrow> 'm typeMapper \<Rightarrow> 'm typeMapper" where
  "put_target targetMap name schema t =
     (case targetMap of
        SubSchemas \<Rightarrow> t\<lparr>subSchemas := AList.update name schema (subSchemas t)\<rparr>
      | SubArraySchemas \<Rightarrow> t\<lparr>subArraySchemas := AList.update name schema (subArraySchemas t)\<rparr>
      | SubMapSchemas \<Rightarrow> t\<lparr>subMapSchemas := AList.update name schema (subMapSchemas t)\<rparr>)"

text \<open>\<^verbatim>\<open>for name, field := range mapperSchema.ResourceFields\<close>\<close>

fun ModifySchema_fields ::
  "('m, 'r) env \<Rightarrow> (string \<times> Field) list \<Rightarrow> 'm typeMapper \<Rightarrow> 'r \<Rightarrow> 'm typeMapper \<times> 'r" where
  "ModifySchema_fields env [] t schemas = (t, schemas)"
| "ModifySchema_fields env ((name, field) # rest) t schemas =
     (case (if IsArrayType env (Type field)
              then (SubType env (Type field), SubArraySchemas)
            else if IsMapType env (Type field)
              then (SubType env (Type field), SubMapSchemas)
            else (Type field, SubSchemas)) of
        (fieldType, targetMap) \<Rightarrow>
          (case doSchema env schemas fieldType False of
             (None, schemas') \<Rightarrow> ModifySchema_fields env rest t schemas'
           | (Some schema, schemas') \<Rightarrow>
               ModifySchema_fields env rest (put_target targetMap name schema t) schemas'))"

text \<open>
  \<^verbatim>\<open>func (t *typeMapper) ModifySchema(schema *Schema, schemas *Schemas) error\<close>; the
  type mapper as the call leaves it is returned with the error, the schema and the registry.
\<close>

definition typeMapper_ModifySchema ::
  "('m, 'r) env \<Rightarrow> ('w, 'm, 'r) impl \<Rightarrow> 'm typeMapper \<Rightarrow> 'm Schema \<Rightarrow> 'r \<Rightarrow> 'w \<Rightarrow>
     (error \<times> 'm typeMapper \<times> 'm Schema \<times> 'r) \<times> 'w" where
  "typeMapper_ModifySchema env impl t schema schemas w =
     (let t0 = t\<lparr>subSchemas := [], subArraySchemas := [], subMapSchemas := [],
                 typeName := ID schema\<rparr>;
          mapperSchema = (case InternalSchema schema of None \<Rightarrow> schema | Some i \<Rightarrow> i)
      in case ModifySchema_fields env (ResourceFields mapperSchema) t0 schemas of
           (t1, schemas1) \<Rightarrow>
             (case Mappers_ModifySchema impl (Mappers t1) schema schemas1 w of
                ((e, schema', schemas'), w') \<Rightarrow> ((e, t1, schema', schemas'), w')))"

section \<open>The traversal as the specification words it\<close>

text \<open>
  A traversal is a list of visits, each a field name with the way the field's value is
  handed on; the visits are made in the order of the list, each on the data and the state
  the one before left, and the results of all of them are collected.
\<close>

fun visit_seq ::
  "(string \<times> (val \<Rightarrow> 'w \<Rightarrow> ('a list \<times> val) \<times> 'w)) list \<Rightarrow> Object \<Rightarrow> 'w \<Rightarrow>
     ('a list \<times> Object) \<times> 'w" where
  "visit_seq [] d w = (([], d), w)"
| "visit_seq ((name, g) # rest) d w =
     (case at_field g name d w of
        ((as, d1), w1) \<Rightarrow>
          (case visit_seq rest d1 w1 of ((bs, d2), w2) \<Rightarrow> ((as @ bs, d2), w2)))"

text \<open>
  The visits a bucket stands for: one for each field whose Schema has a Mapper, in the
  order of the bucket, handing the field's value to the method \<open>kind\<close> picks.
\<close>

definition visits ::
  "(('w, 'm, 'r) Mapper \<Rightarrow> val \<Rightarrow> 'w \<Rightarrow> ('a list \<times> val) \<times> 'w) \<Rightarrow> ('w, 'm, 'r) impl \<Rightarrow>
     (string \<times> 'm Schema) list \<Rightarrow> (string \<times> (val \<Rightarrow> 'w \<Rightarrow> ('a list \<times> val) \<times> 'w)) list" where
  "visits kind impl bucket =
     List.map_filter
       (\<lambda>(name, schema). map_option (\<lambda>m. (name, kind (impl m))) (Mapper schema)) bucket"

section \<open>The classification as the specification words it\<close>

text \<open>
  A field's type string is an array-of-T (checked first), else a map-of-T, else a plain
  type, taken as an object type: the bucket it belongs to and the type to resolve.
\<close>

definition classify :: "('m, 'r) env \<Rightarrow> string \<Rightarrow> target \<times> string" where
  "classify env ft =
     (if IsArrayType env ft then (SubArraySchemas, SubType env ft)
      else if IsMapType env ft then (SubMapSchemas, SubType env ft)
      else (SubSchemas, ft))"

text \<open>
  Every field is resolved, in order, each lookup on the registry the one before left:
  the field's name, its bucket and what the registry returned.
\<close>

fun resolutions ::
  "('m, 'r) env \<Rightarrow> (string \<times> Field) list \<Rightarrow> 'r \<Rightarrow>
     (string \<times> target \<times> 'm Schema option) list \<times> 'r" where
  "resolutions env [] r = ([], r)"
| "resolutions env ((name, field) # rest) r =
     (case doSchema env r (snd (classify env (Type field))) False of
        (s, r1) \<Rightarrow>
          (case resolutions env rest r1 of
             (xs, r2) \<Rightarrow> ((name, fst (classify env (Type field)), s) # xs, r2)))"

text \<open>
  A bucket after the resolutions: the fields of the bucket's kind for which the registry
  returned a Schema are entered, a later entry of a name replacing an earlier one.
\<close>

fun bucket_from ::
  "target \<Rightarrow> (string \<times> 'm Schema) list \<Rightarrow> (string \<times> target \<times> 'm Schema option) list \<Rightarrow>
     (string \<times> 'm Schema) list" where
  "bucket_from tg b [] = b"
| "bucket_from tg b ((name, tg', s) # xs) =
     bucket_from tg
       (case s of None \<Rightarrow> b | Some x \<Rightarrow> if tg' = tg then AList.update name x b else b) xs"

text \<open>The type mapper state that modify-schema builds for a schema and a registry.\<close>

definition rebuilt :: "('m, 'r) env \<Rightarrow> 'm typeMapper \<Rightarrow> 'm Schema \<Rightarrow> 'r \<Rightarrow> 'm typeMapper" where
  "rebuilt env t schema r =
     (let xs = fst (resolutions env
                (ResourceFields (case InternalSchema schema of None \<Rightarrow> schema | Some i \<Rightarrow> i)) r)
      in t\<lparr>subSchemas := bucket_from SubSchemas [] xs,
           subArraySchemas := bucket_from SubArraySchemas [] xs,
           subMapSchemas := bucket_from SubMapSchemas [] xs,
           typeName := ID schema\<rparr>)"

text \<open>
  A registry for the examples: an association list searched by name, with the type
  strings \<open>array[T]\<close> and \<open>map[T]\<close>.
\<close>

definition test_env :: "(nat, (string \<times> nat Schema) list) env" where
  "test_env =
     \<lparr> IsArrayType = (\<lambda>ft. take 6 ft = ''array[''),
       IsMapType = (\<lambda>ft. take 4 ft = ''map[''),
       SubType = (\<lambda>ft. butlast (tl (dropWhile (\<lambda>c. c \<noteq> CHR ''['') ft))),
       doSchema = (\<lambda>r name lock. (map_of r name, r)) \<rparr>"

definition test_registry :: "(string \<times> nat Schema) list" where
  "test_registry =
     [(''A'', Schema ''A'' [] None None), (''C'', Schema ''C'' [] None (Some 4))]"

definition test_schema :: "nat Schema" where
  "test_schema =
     Schema ''Parent''
       [(''a'', \<lparr>Type = ''A''\<rparr>), (''b'', \<lparr>Type = ''array[B]''\<rparr>), (''c'', \<lparr>Type = ''map[C]''\<rparr>),
        (''n'', \<lparr>Type = ''string''\<rparr>)]
       None None"

definition stale_mapper :: "nat typeMapper" where
  "stale_mapper =
     \<lparr> Mappers = [0, 1, 2], root = True, typeName = ''Old'',
       subSchemas = [(''z'', Schema ''Z'' [] None (Some 9))],
       subArraySchemas = [(''y'', Schema ''Y'' [] None None)],
       subMapSchemas = [(''a'', Schema ''A'' [] None None)] \<rparr>"

text \<open>A bucket without the fields whose Schema has no Mapper.\<close>

definition without_nil :: "(string \<times> 'm Schema) list \<Rightarrow> (string \<times> 'm Schema) list" where
  "without_nil bucket = filter (\<lambda>(name, schema). Mapper schema \<noteq> None) bucket"

section \<open>Mutual inverses\<close>




definition nil_stable :: "(val \<Rightarrow> 'w \<Rightarrow> ('a list \<times> val) \<times> 'w) \<Rightarrow> bool" where
  "nil_stable g \<longleftrightarrow> (\<forall>w. snd (fst (g VNil w)) = VNil)"

section \<open>Example type mappers\<close>

definition items_mapper :: "nat typeMapper" where
  "items_mapper =
     \<lparr> Mappers = [], root = False, typeName = ''Parent'', subSchemas = [],
       subArraySchemas = [(''items'', Schema ''X'' [] None (Some 1))], subMapSchemas = [] \<rparr>"

definition three_items :: Object where
  "three_items = Some [(''items'', VSlice [VMap [], VMap [], VMap []])]"

definition nested_mapper :: "nat typeMapper" where
  "nested_mapper =
     \<lparr> Mappers = [0, 2], root = False, typeName = ''Parent'',
       subSchemas = [(''a'', Schema ''X'' [] None (Some 7))],
       subArraySchemas = [], subMapSchemas = [] \<rparr>"

definition scalar_mapper :: "nat typeMapper" where
  "scalar_mapper =
     \<lparr> Mappers = [1], root = False, typeName = ''T'', subSchemas = [],
       subArraySchemas = [], subMapSchemas = [] \<rparr>"

definition record_call :: "(unit, Object list) call" where
  "record_call d w = (((), entries d), w @ [d])"




section \<open>Properties of the chain\<close>

lemma mutate_entries [simp]: "mutate d (entries d) = d"
  by (cases d) (simp_all add: mutate_def entries_def)

lemma mutate_mutate [simp]: "mutate (mutate d kv) kv' = mutate d kv'"
  by (cases d) (simp_all add: mutate_def)

lemma errors_Join_Nil [simp]: "errors_Join [] = None"
  by (simp add: errors_Join_def List.map_filter_simps)

lemma map_filter_id_Nil_iff: "List.map_filter id errs = [] \<longleftrightarrow> list_all (\<lambda>e. e = None) errs"
  by (induction errs) (auto simp: List.map_filter_simps split: option.splits)

lemma errors_Join_None_iff: "errors_Join errs = None \<longleftrightarrow> list_all (\<lambda>e. e = None) errs"
  by (simp add: errors_Join_def Let_def map_filter_id_Nil_iff)

lemma errors_Join_not_empty_wrapper: "errors_Join errs \<noteq> Some (JoinError [])"
  by (simp add: errors_Join_def Let_def)

lemma ToInternal_loop_run_every:
  "k \<le> length m \<Longrightarrow>
   ToInternal_loop impl m k errs d w =
     (case run_every impl (rev (take k m)) d w of ((es, d'), w') \<Rightarrow> ((errs @ es, d'), w'))"
proof (induction k arbitrary: errs d w)
  case 0
  then show ?case by simp
next
  case (Suc k)
  then have k: "k < length m" and k': "k \<le> length m" by simp_all
  have tk: "rev (take (Suc k) m) = m ! k # rev (take k m)"
    using k by (simp add: take_Suc_conv_app_nth)
  show ?case
    by (simp add: tk Suc.IH [OF k'] split: prod.splits)
qed

lemma length_run_every: "length (fst (fst (run_every impl m d w))) = length m"
proof (induction m arbitrary: d w)
  case Nil
  then show ?case by simp
next
  case (Cons a m)
  obtain e kv w1 where a: "ToInternal (impl a) d w = ((e, kv), w1)"
    by (metis prod.exhaust)
  obtain es d2 w2 where r: "run_every impl m (mutate d kv) w1 = ((es, d2), w2)"
    by (metis prod.exhaust)
  from Cons.IH [of "mutate d kv" w1] r have "length es = length m" by simp
  then show ?case by (simp add: a r)
qed

lemma Mappers_ModifySchema_append:
  "Mappers_ModifySchema impl (pre @ post) schema schemas w =
     (case Mappers_ModifySchema impl pre schema schemas w of
        ((Some e, s1, r1), w1) \<Rightarrow> ((Some e, s1, r1), w1)
      | ((None, s1, r1), w1) \<Rightarrow> Mappers_ModifySchema impl post s1 r1 w1)"
proof (induction pre arbitrary: schema schemas w)
  case Nil
  then show ?case by simp
next
  case (Cons a pre)
  obtain e s1 r1 w1 where a: "ModifySchema (impl a) schema schemas w = ((e, s1, r1), w1)"
    by (metis prod.exhaust)
  show ?case
    by (cases e) (simp_all add: a Cons.IH)
qed

section \<open>Theorems about the chain\<close>

text \<open>
  C5. The chain's to-internal runs its mappers last-to-first, each on what the one before
  left, and runs every one of them whatever the earlier ones returned: its result is that of
  running every mapper of the reversed chain, with the collected errors joined, and as many
  results are collected as the chain has mappers. The joined error is nil exactly when every
  mapper returned nil, it is never an aggregate of zero errors, its constituents are the
  non-nil errors in the order they were returned, and for the empty chain it is nil.
\<close>

theorem Mappers_ToInternal_reverse_all:
  "Mappers_ToInternal impl m d w =
     (case run_every impl (rev m) d w of ((es, d'), w') \<Rightarrow> ((errors_Join es, d'), w'))
   \<and> length (fst (fst (run_every impl (rev m) d w))) = length m
   \<and> (fst (fst (Mappers_ToInternal impl m d w)) = None \<longleftrightarrow>
        list_all (\<lambda>e. e = None) (fst (fst (run_every impl (rev m) d w))))
   \<and> fst (fst (Mappers_ToInternal impl m d w)) \<noteq> Some (JoinError [])
   \<and> constituents (fst (fst (Mappers_ToInternal impl m d w))) =
        List.map_filter id (fst (fst (run_every impl (rev m) d w)))
   \<and> Mappers_ToInternal impl [] d w = ((None, d), w)"
proof -
  obtain es d' w' where r: "run_every impl (rev m) d w = ((es, d'), w')"
    by (metis prod.exhaust)
  have eq: "Mappers_ToInternal impl m d w = ((errors_Join es, d'), w')"
    using ToInternal_loop_run_every [of "length m" m impl "[]" d w]
    by (simp add: Mappers_ToInternal_def r)
  have c: "constituents (errors_Join es) = List.map_filter id es"
    by (simp add: errors_Join_def Let_def)
  have e0: "Mappers_ToInternal impl [] d w = ((None, d), w)"
    by (simp add: Mappers_ToInternal_def)
  show ?thesis
    using length_run_every [of impl "rev m" d w]
    by (simp add: eq r errors_Join_None_iff errors_Join_not_empty_wrapper c e0)
qed

theorem Mappers_ToInternal_reverse_all_witness:
  "Mappers_ToInternal logging [0, 1, 2, 3] (Some []) [] =
     ((Some (JoinError [Err ''odd'', Err ''odd'']), Some []), [3, 2, 1, 0])
   \<and> Mappers_ToInternal logging [0, 2] (Some []) [] = ((None, Some []), [2, 0])"
  using Mappers_ToInternal_reverse_all [of logging "[0, 1, 2, 3]" "Some []" "[]"]
    Mappers_ToInternal_reverse_all [of logging "[0, 2]" "Some []" "[]"]
  by (simp add: logging_def entries_def mutate_def errors_Join_def List.map_filter_simps)

text \<open>
  C6. The chain's modify-schema runs its mappers first-to-last, each on the schema, the
  registry and the state the one before left. When the mappers before \<open>x\<close> have all
  returned nil, \<open>x\<close> is run on what they left; if it fails, the chain returns that error
  with the schema, registry and state exactly as \<open>x\<close> left them, whatever mappers follow
  (none of them is run); if it returns nil the chain goes on with the mappers after it.
  The empty chain returns nil.
\<close>

theorem Mappers_ModifySchema_fail_fast:
  "(fst (fst (Mappers_ModifySchema impl pre schema schemas w)) = None \<longrightarrow>
      (case Mappers_ModifySchema impl pre schema schemas w of
         ((_, s1, r1), w1) \<Rightarrow>
           (case ModifySchema (impl x) s1 r1 w1 of
              ((Some e, s2, r2), w2) \<Rightarrow>
                 Mappers_ModifySchema impl (pre @ x # post) schema schemas w =
                   ((Some e, s2, r2), w2)
            | ((None, s2, r2), w2) \<Rightarrow>
                 Mappers_ModifySchema impl (pre @ x # post) schema schemas w =
                   Mappers_ModifySchema impl post s2 r2 w2)))
   \<and> Mappers_ModifySchema impl [] schema schemas w = ((None, schema, schemas), w)"
proof -
  obtain e1 s1 r1 w1 where p: "Mappers_ModifySchema impl pre schema schemas w = ((e1, s1, r1), w1)"
    by (metis prod.exhaust)
  obtain e2 s2 r2 w2 where x: "ModifySchema (impl x) s1 r1 w1 = ((e2, s2, r2), w2)"
    by (metis prod.exhaust)
  show ?thesis
    by (cases e2) (simp_all add: Mappers_ModifySchema_append [of impl pre "x # post"] p x)
qed

theorem Mappers_ModifySchema_fail_fast_witness:
  "Mappers_ModifySchema logging [0, 2, 1, 4] (Schema ''T'' [] None None) [] [] =
     ((Some (Err ''odd''), Schema ''T'' [] None None, []), [0, 2, 1])
   \<and> Mappers_ModifySchema logging [0, 2, 4] (Schema ''T'' [] None None) [] [] =
     ((None, Schema ''T'' [] None None, []), [0, 2, 4])"
  using Mappers_ModifySchema_fail_fast
      [of logging "[0, 2]" "Schema ''T'' [] None None" "[]" "[]" 1 "[4]"]
    Mappers_ModifySchema_fail_fast
      [of logging "[0, 2]" "Schema ''T'' [] None None" "[]" "[]" 4 "[]"]
  by (simp add: logging_def)

section \<open>Properties and theorems of the traversal\<close>


lemma visits_Nil [simp]: "visits kind impl [] = []"
  by (simp add: visits_def List.map_filter_simps)

lemma visits_Cons:
  "visits kind impl ((name, schema) # rest) =
     (case Mapper schema of None \<Rightarrow> visits kind impl rest
      | Some m \<Rightarrow> (name, kind (impl m)) # visits kind impl rest)"
  by (simp add: visits_def List.map_filter_simps split: option.splits)

lemma visit_seq_append:
  "visit_seq (xs @ ys) d w =
     (case visit_seq xs d w of
        ((as, d1), w1) \<Rightarrow>
          (case visit_seq ys d1 w1 of ((bs, d2), w2) \<Rightarrow> ((as @ bs, d2), w2)))"
  by (induction xs arbitrary: d w) (auto split: prod.splits)

lemma FromInternal_subSchemas_visits:
  "FromInternal_subSchemas impl b d w =
     (case visit_seq (visits (\<lambda>mp. as_Map (from_call mp)) impl b) d w of
        ((us, d'), w') \<Rightarrow> (d', w'))"
  by (induction impl b d w rule: FromInternal_subSchemas.induct)
     (auto simp: visits_Cons split: prod.splits option.splits)

lemma FromInternal_subMapSchemas_visits:
  "FromInternal_subMapSchemas impl b d w =
     (case visit_seq (visits (\<lambda>mp. as_Values (from_call mp)) impl b) d w of
        ((us, d'), w') \<Rightarrow> (d', w'))"
  by (induction impl b d w rule: FromInternal_subMapSchemas.induct)
     (auto simp: visits_Cons split: prod.splits option.splits)

lemma FromInternal_subArraySchemas_visits:
  "FromInternal_subArraySchemas impl b d w =
     (case visit_seq (visits (\<lambda>mp. as_Slice (from_call mp)) impl b) d w of
        ((us, d'), w') \<Rightarrow> (d', w'))"
  by (induction impl b d w rule: FromInternal_subArraySchemas.induct)
     (auto simp: visits_Cons split: prod.splits option.splits)

lemma ToInternal_subArraySchemas_visits:
  "ToInternal_subArraySchemas impl b errs d w =
     (case visit_seq (visits (\<lambda>mp. as_Slice (ToInternal mp)) impl b) d w of
        ((es, d'), w') \<Rightarrow> ((foldl addError errs es, d'), w'))"
  by (induction impl b errs d w rule: ToInternal_subArraySchemas.induct)
     (auto simp: visits_Cons split: prod.splits option.splits)

lemma ToInternal_subMapSchemas_visits:
  "ToInternal_subMapSchemas impl b errs d w =
     (case visit_seq (visits (\<lambda>mp. as_Values (ToInternal mp)) impl b) d w of
        ((es, d'), w') \<Rightarrow> ((foldl addError errs es, d'), w'))"
  by (induction impl b errs d w rule: ToInternal_subMapSchemas.induct)
     (auto simp: visits_Cons split: prod.splits option.splits)

lemma ToInternal_subSchemas_visits:
  "ToInternal_subSchemas impl b errs d w =
     (case visit_seq (visits (\<lambda>mp. as_Map (ToInternal mp)) impl b) d w of
        ((es, d'), w') \<Rightarrow> ((foldl addError errs es, d'), w'))"
  by (induction impl b errs d w rule: ToInternal_subSchemas.induct)
     (auto simp: visits_Cons split: prod.splits option.splits)

lemma map_filter_id_append:
  "List.map_filter id (xs @ ys) = List.map_filter id xs @ List.map_filter id ys"
  by (simp add: List.map_filter_def)

lemma map_filter_id_foldl_addError:
  "List.map_filter id (foldl addError errs es) = List.map_filter id errs @ List.map_filter id es"
  by (induction es arbitrary: errs)
     (auto simp: addError_def List.map_filter_simps map_filter_id_append)

lemma errors_Join_foldl_addError:
  "errors_Join (foldl addError errs es) = errors_Join (errs @ es)"
  by (simp add: errors_Join_def map_filter_id_foldl_addError map_filter_id_append)


lemma map_filter_id_addError_Nil: "List.map_filter id (addError [] e) = List.map_filter id [e]"
  by (cases e) (simp_all add: addError_def List.map_filter_simps)

lemma errors_Join_cong: "List.map_filter id xs = List.map_filter id ys \<Longrightarrow> errors_Join xs = errors_Join ys"
  by (simp add: errors_Join_def)

lemma errors_Join_accumulated:
  "errors_Join (foldl addError (foldl addError (foldl addError (addError [] e0) es1) es2) es3) =
     errors_Join (e0 # es1 @ es2 @ es3)"
proof (rule errors_Join_cong)
  have "List.map_filter id (e0 # es1 @ es2 @ es3) =
      List.map_filter id [e0] @ List.map_filter id es1 @ List.map_filter id es2 @ List.map_filter id es3"
    using map_filter_id_append [of "[e0]" "es1 @ es2 @ es3"]
    by (simp add: map_filter_id_append)
  then show "List.map_filter id (foldl addError (foldl addError (foldl addError (addError [] e0) es1) es2) es3) =
      List.map_filter id (e0 # es1 @ es2 @ es3)"
    by (simp add: map_filter_id_foldl_addError map_filter_id_addError_Nil)
qed

lemma length_call_each: "length (fst (fst (call_each f vs w))) = length vs"
proof (induction vs arbitrary: w)
  case Nil
  then show ?case by simp
next
  case (Cons v vs)
  obtain a v' w1 where a: "call_val f v w = ((a, v'), w1)" by (metis prod.exhaust)
  obtain as vs' w2 where r: "call_each f vs w1 = ((as, vs'), w2)" by (metis prod.exhaust)
  from Cons.IH [of w1] r have "length as = length vs" by simp
  then show ?case by (simp add: a r)
qed


lemma call_each_always_fails:
  assumes "\<And>ob w. fst (fst (f ob w)) \<noteq> None"
  shows "list_all (\<lambda>e. e \<noteq> None) (fst (fst (call_each f vs w)))"
proof (induction vs arbitrary: w)
  case Nil
  then show ?case by simp
next
  case (Cons v vs)
  obtain a v' w1 where a: "call_val f v w = ((a, v'), w1)" by (metis prod.exhaust)
  obtain as vs' w2 where r: "call_each f vs w1 = ((as, vs'), w2)" by (metis prod.exhaust)
  have "a \<noteq> None"
    using a assms [of "ToMapInterface v" w] by (auto simp: call_val_def split: prod.splits)
  moreover from Cons.IH [of w1] r have "list_all (\<lambda>e. e \<noteq> None) as" by simp
  ultimately show ?case by (simp add: a r)
qed

lemma length_map_filter_id_all:
  "list_all (\<lambda>e. e \<noteq> None) es \<Longrightarrow> length (List.map_filter id es) = length es"
  by (induction es) (auto simp: List.map_filter_simps)

lemma constituents_errors_Join [simp]: "constituents (errors_Join es) = List.map_filter id es"
  by (simp add: errors_Join_def Let_def)

lemma typeMapper_ToInternal_visits:
  "typeMapper_ToInternal impl t d w =
     (case Mappers_ToInternal impl (Mappers t) d w of
        ((e0, d0), w0) \<Rightarrow>
     (case visit_seq (visits (\<lambda>mp. as_Slice (ToInternal mp)) impl (subArraySchemas t)) d0 w0 of
        ((es1, d1), w1) \<Rightarrow>
     (case visit_seq (visits (\<lambda>mp. as_Values (ToInternal mp)) impl (subMapSchemas t)) d1 w1 of
        ((es2, d2), w2) \<Rightarrow>
     (case visit_seq (visits (\<lambda>mp. as_Map (ToInternal mp)) impl (subSchemas t)) d2 w2 of
        ((es3, d3), w3) \<Rightarrow> ((errors_Join (e0 # es1 @ es2 @ es3), d3), w3)))))"
  by (simp add: typeMapper_ToInternal_def ToInternal_subArraySchemas_visits
      ToInternal_subMapSchemas_visits ToInternal_subSchemas_visits errors_Join_accumulated
      split: prod.splits)

text \<open>
  C1. The type mapper's to-internal first runs its own chain's to-internal, then visits the
  array bucket (its method on each element of the sequence at each array field), then the
  map bucket (on each value of the map at each map field), then the object bucket (on the
  sub-object at each object field), each step on the data and state the one before left. No
  result stops the traversal: the error returned is the join of the chain's error and the
  results of all the calls, in that order. A visit of a sequence makes one call per element,
  of a map one call per value, of an object one call. In particular, for a type mapper with an
  empty chain and the single array field \<open>name\<close> whose Schema's to-internal always fails,
  the aggregate has as many constituents as the sequence at \<open>name\<close> has elements.
\<close>

theorem typeMapper_ToInternal_collects_all:
  "typeMapper_ToInternal impl t d w =
     (case Mappers_ToInternal impl (Mappers t) d w of
        ((e0, d0), w0) \<Rightarrow>
     (case visit_seq (visits (\<lambda>mp. as_Slice (ToInternal mp)) impl (subArraySchemas t)) d0 w0 of
        ((es1, d1), w1) \<Rightarrow>
     (case visit_seq (visits (\<lambda>mp. as_Values (ToInternal mp)) impl (subMapSchemas t)) d1 w1 of
        ((es2, d2), w2) \<Rightarrow>
     (case visit_seq (visits (\<lambda>mp. as_Map (ToInternal mp)) impl (subSchemas t)) d2 w2 of
        ((es3, d3), w3) \<Rightarrow> ((errors_Join (e0 # es1 @ es2 @ es3), d3), w3)))))
   \<and> length (fst (fst (as_Slice f (VSlice vs) w))) = length vs
   \<and> length (fst (fst (as_Values f (VMap kv) w))) = length kv
   \<and> length (fst (fst (as_Map f v w))) = 1
   \<and> (Mappers t = [] \<and> subArraySchemas t = [(name, X)] \<and> Mapper X = Some mx \<and>
       subMapSchemas t = [] \<and> subSchemas t = [] \<and> get_value d name = VSlice vs \<and>
       (\<forall>ob w. fst (fst (ToInternal (impl mx) ob w)) \<noteq> None) \<longrightarrow>
         length (constituents (fst (fst (typeMapper_ToInternal impl t d w)))) = length vs)"
proof -
  have c1: "length (fst (fst (as_Slice f (VSlice vs) w))) = length vs"
    using length_call_each [of f vs w] by (auto simp: as_Slice_def split: prod.splits)
  have c2: "length (fst (fst (as_Values f (VMap kv) w))) = length kv"
    using length_call_each [of f "map snd kv" w] by (auto simp: as_Values_def split: prod.splits)
  have c3: "length (fst (fst (as_Map f v w))) = 1"
    by (simp add: as_Map_def split: prod.splits)
  have c4: "length (constituents (fst (fst (typeMapper_ToInternal impl t d w)))) = length vs"
    if h: "Mappers t = []" "subArraySchemas t = [(name, X)]" "Mapper X = Some mx"
      "subMapSchemas t = []" "subSchemas t = []" "get_value d name = VSlice vs"
      "\<forall>ob w. fst (fst (ToInternal (impl mx) ob w)) \<noteq> None"
  proof -
    obtain es vs' w' where r: "call_each (ToInternal (impl mx)) vs w = ((es, vs'), w')"
      by (metis prod.exhaust)
    have all: "list_all (\<lambda>e. e \<noteq> None) es"
      using call_each_always_fails [of "ToInternal (impl mx)" vs w] h(7) r by simp
    have len: "length es = length vs"
      using length_call_each [of "ToInternal (impl mx)" vs w] r by simp
    have "fst (fst (typeMapper_ToInternal impl t d w)) = errors_Join (None # es)"
      by (simp add: typeMapper_ToInternal_visits h Mappers_ToInternal_def visits_Cons
          at_field_def as_Slice_def r)
    then show ?thesis
      using all len by (simp add: List.map_filter_simps length_map_filter_id_all)
  qed
  show ?thesis
    using typeMapper_ToInternal_visits [of impl t d w] c1 c2 c3 c4 by blast
qed


theorem typeMapper_ToInternal_collects_all_witness:
  "typeMapper_ToInternal logging items_mapper three_items [] =
     ((Some (JoinError [Err ''odd'', Err ''odd'', Err ''odd'']), three_items), [1, 1, 1])
   \<and> length (constituents (fst (fst (typeMapper_ToInternal logging items_mapper three_items [])))) = 3"
proof -
  have h: "Mappers items_mapper = [] \<and> subArraySchemas items_mapper = [(''items'', Schema ''X'' [] None (Some 1))] \<and>
      Mapper (Schema ''X'' [] None (Some (1::nat))) = Some 1 \<and>
      subMapSchemas items_mapper = [] \<and> subSchemas items_mapper = [] \<and>
      get_value three_items ''items'' = VSlice [VMap [], VMap [], VMap []] \<and>
      (\<forall>ob w. fst (fst (ToInternal (logging 1) ob w)) \<noteq> None)"
    by (simp add: items_mapper_def three_items_def get_value_def entries_def logging_def)
  have e: "visit_seq (visits (\<lambda>mp. as_Slice (ToInternal mp)) logging (subArraySchemas items_mapper))
        three_items [] =
      (([Some (Err ''odd''), Some (Err ''odd''), Some (Err ''odd'')], three_items), [1, 1, 1])"
    by (simp add: items_mapper_def three_items_def visits_Cons at_field_def get_value_def
        entries_def as_Slice_def call_val_def logging_def put_field_def)
  have "length (constituents (fst (fst (typeMapper_ToInternal logging items_mapper three_items [])))) =
      length [VMap [], VMap [], VMap []]"
    using typeMapper_ToInternal_collects_all
      [where impl = logging and t = items_mapper and d = three_items and w = "[]"
        and vs = "[VMap [], VMap [], VMap []]" and name = "''items''"
        and X = "Schema ''X'' [] None (Some 1)" and mx = 1] h
    by blast
  moreover have "typeMapper_ToInternal logging items_mapper three_items [] =
     ((Some (JoinError [Err ''odd'', Err ''odd'', Err ''odd'']), three_items), [1, 1, 1])"
  proof -
    have h2: "Mappers items_mapper = []" "subMapSchemas items_mapper = []"
      "subSchemas items_mapper = []"
      by (simp_all add: items_mapper_def)
    show ?thesis
      by (simp add: typeMapper_ToInternal_visits e h2 Mappers_ToInternal_def errors_Join_def
          List.map_filter_simps)
  qed
  ultimately show ?thesis by simp
qed

lemma store_val_entries [simp]: "store_val v (entries (ToMapInterface v)) = v"
  by (cases v) (simp_all add: entries_def)

lemma call_each_record_call:
  "call_each record_call vs w = ((map (\<lambda>_. ()) vs, vs), w @ map ToMapInterface vs)"
  by (induction vs arbitrary: w) (simp_all add: call_val_def record_call_def)

text \<open>
  C3. The type mapper's from-internal makes every visit of the object bucket, then of the
  map bucket, then of the array bucket, and only then runs its own chain's from-internal, on
  the data and the state the visits left. A visit of an object field calls the method on
  the sub-object at the field name, of a map field on every value of the map at the field
  name, of an array field on every element of the sequence at the field name (the calls
  are recorded by \<open>record_call\<close>). In particular, with the single nested-object field
  \<open>a\<close> of Schema \<open>X\<close>, the from-internal of \<open>X\<close> is run on the sub-object at \<open>a\<close> in the
  initial state, and the parent's chain on what it left.
\<close>

theorem typeMapper_FromInternal_children_first:
  "typeMapper_FromInternal impl t d w =
     (case visit_seq
          (visits (\<lambda>mp. as_Map (from_call mp)) impl (subSchemas t) @
           visits (\<lambda>mp. as_Values (from_call mp)) impl (subMapSchemas t) @
           visits (\<lambda>mp. as_Slice (from_call mp)) impl (subArraySchemas t)) d w of
        ((us, d'), w') \<Rightarrow> Mappers_FromInternal impl (Mappers t) d' w')
   \<and> snd (at_field (as_Map record_call) name d []) = [Object_Map d name]
   \<and> snd (at_field (as_Values record_call) name d []) = Object_Values (Object_Map d name)
   \<and> snd (at_field (as_Slice record_call) name d []) = Object_Slice d name
   \<and> (subSchemas t = [(a, X)] \<and> Mapper X = Some mx \<and> subMapSchemas t = [] \<and>
       subArraySchemas t = [] \<longrightarrow>
         typeMapper_FromInternal impl t d w =
           (case FromInternal (impl mx) (Object_Map d a) w of
              (kv, w1) \<Rightarrow>
                Mappers_FromInternal impl (Mappers t)
                  (put_field d a (store_val (get_value d a) kv)) w1))"
proof -
  have g: "typeMapper_FromInternal impl t d w =
     (case visit_seq
          (visits (\<lambda>mp. as_Map (from_call mp)) impl (subSchemas t) @
           visits (\<lambda>mp. as_Values (from_call mp)) impl (subMapSchemas t) @
           visits (\<lambda>mp. as_Slice (from_call mp)) impl (subArraySchemas t)) d w of
        ((us, d'), w') \<Rightarrow> Mappers_FromInternal impl (Mappers t) d' w')"
    by (simp add: typeMapper_FromInternal_def FromInternal_subSchemas_visits
        FromInternal_subMapSchemas_visits FromInternal_subArraySchemas_visits visit_seq_append
        split: prod.splits)
  have r1: "snd (at_field (as_Map record_call) name d []) = [Object_Map d name]"
    by (simp add: at_field_def as_Map_def call_val_def record_call_def Object_Map_def)
  have r2: "snd (at_field (as_Values record_call) name d []) = Object_Values (Object_Map d name)"
    by (cases "get_value d name")
       (simp_all add: at_field_def as_Values_def call_each_record_call Object_Values_def
         Object_Map_def entries_def case_prod_unfold)
  have r3: "snd (at_field (as_Slice record_call) name d []) = Object_Slice d name"
    by (cases "get_value d name")
       (simp_all add: at_field_def as_Slice_def call_each_record_call Object_Slice_def)
  have s: "typeMapper_FromInternal impl t d w =
           (case FromInternal (impl mx) (Object_Map d a) w of
              (kv, w1) \<Rightarrow>
                Mappers_FromInternal impl (Mappers t)
                  (put_field d a (store_val (get_value d a) kv)) w1)"
    if "subSchemas t = [(a, X)]" "Mapper X = Some mx" "subMapSchemas t = []"
      "subArraySchemas t = []"
    using that
    by (simp add: typeMapper_FromInternal_def at_field_def as_Map_def call_val_def
        from_call_def Object_Map_def split: prod.splits)
  show ?thesis using g r1 r2 r3 s by blast
qed

theorem typeMapper_FromInternal_children_first_witness:
  "typeMapper_FromInternal logging nested_mapper (Some [(''a'', VMap [])]) [] =
     (Some [(''a'', VMap [])], [7, 0, 2])"
proof -
  have h: "subSchemas nested_mapper = [(''a'', Schema ''X'' [] None (Some 7))] \<and>
      Mapper (Schema ''X'' [] None (Some (7::nat))) = Some 7 \<and>
      subMapSchemas nested_mapper = [] \<and> subArraySchemas nested_mapper = []"
    by (simp add: nested_mapper_def)
  have "typeMapper_FromInternal logging nested_mapper (Some [(''a'', VMap [])]) [] =
      (case FromInternal (logging 7) (Object_Map (Some [(''a'', VMap [])]) ''a'') [] of
         (kv, w1) \<Rightarrow>
           Mappers_FromInternal logging (Mappers nested_mapper)
             (put_field (Some [(''a'', VMap [])]) ''a''
                (store_val (get_value (Some [(''a'', VMap [])]) ''a'') kv)) w1)"
    using typeMapper_FromInternal_children_first
      [where impl = logging and t = nested_mapper and d = "Some [(''a'', VMap [])]"
        and w = "[]" and a = "''a''" and X = "Schema ''X'' [] None (Some 7)" and mx = 7] h
    by blast
  then show ?thesis
    by (simp add: nested_mapper_def logging_def Object_Map_def get_value_def entries_def
        put_field_def mutate_def)
qed

text \<open>
  C9 (amended). For a type mapper whose three buckets are empty, from-internal is the
  chain's from-internal, and to-internal leaves the data and the state exactly as the
  chain's to-internal does; the error it returns is the chain's error joined once more: nil
  exactly when the chain's is nil, and otherwise an aggregate whose only constituent is the
  chain's error.
\<close>

theorem typeMapper_no_buckets:
  "subSchemas t = [] \<and> subArraySchemas t = [] \<and> subMapSchemas t = [] \<longrightarrow>
     typeMapper_FromInternal impl t d w = Mappers_FromInternal impl (Mappers t) d w
   \<and> typeMapper_ToInternal impl t d w =
       (case Mappers_ToInternal impl (Mappers t) d w of
          ((e, d'), w') \<Rightarrow> ((errors_Join [e], d'), w'))
   \<and> snd (fst (typeMapper_ToInternal impl t d w)) = snd (fst (Mappers_ToInternal impl (Mappers t) d w))
   \<and> snd (typeMapper_ToInternal impl t d w) = snd (Mappers_ToInternal impl (Mappers t) d w)
   \<and> (fst (fst (typeMapper_ToInternal impl t d w)) = None \<longleftrightarrow>
        fst (fst (Mappers_ToInternal impl (Mappers t) d w)) = None)
   \<and> constituents (fst (fst (typeMapper_ToInternal impl t d w))) =
        (case fst (fst (Mappers_ToInternal impl (Mappers t) d w)) of None \<Rightarrow> [] | Some x \<Rightarrow> [x])"
proof (intro impI)
  assume h: "subSchemas t = [] \<and> subArraySchemas t = [] \<and> subMapSchemas t = []"
  obtain e d' w' where c: "Mappers_ToInternal impl (Mappers t) d w = ((e, d'), w')"
    by (metis prod.exhaust)
  have f: "typeMapper_FromInternal impl t d w = Mappers_FromInternal impl (Mappers t) d w"
    using h by (simp add: typeMapper_FromInternal_def)
  have tt: "typeMapper_ToInternal impl t d w = ((errors_Join [e], d'), w')"
    using h by (simp add: typeMapper_ToInternal_visits c)
  show "typeMapper_FromInternal impl t d w = Mappers_FromInternal impl (Mappers t) d w
   \<and> typeMapper_ToInternal impl t d w =
       (case Mappers_ToInternal impl (Mappers t) d w of
          ((e, d'), w') \<Rightarrow> ((errors_Join [e], d'), w'))
   \<and> snd (fst (typeMapper_ToInternal impl t d w)) = snd (fst (Mappers_ToInternal impl (Mappers t) d w))
   \<and> snd (typeMapper_ToInternal impl t d w) = snd (Mappers_ToInternal impl (Mappers t) d w)
   \<and> (fst (fst (typeMapper_ToInternal impl t d w)) = None \<longleftrightarrow>
        fst (fst (Mappers_ToInternal impl (Mappers t) d w)) = None)
   \<and> constituents (fst (fst (typeMapper_ToInternal impl t d w))) =
        (case fst (fst (Mappers_ToInternal impl (Mappers t) d w)) of None \<Rightarrow> [] | Some x \<Rightarrow> [x])"
    by (cases e) (simp_all add: f tt c errors_Join_def List.map_filter_simps)
qed

theorem typeMapper_no_buckets_witness:
  "typeMapper_FromInternal logging scalar_mapper (Some []) [] = (Some [], [1])
   \<and> typeMapper_ToInternal logging scalar_mapper (Some []) [] =
       ((Some (JoinError [JoinError [Err ''odd'']]), Some []), [1])"
  using typeMapper_no_buckets [of scalar_mapper logging "Some []" "[]"]
  by (simp add: scalar_mapper_def logging_def Mappers_ToInternal_def entries_def mutate_def
      errors_Join_def List.map_filter_simps)

text \<open>
  C9 as stated fails: when the chain fails, the type mapper does not return the chain's
  error itself but an aggregate wrapped around it.
\<close>

theorem typeMapper_ToInternal_not_exactly_chain:
  "typeMapper_ToInternal logging scalar_mapper (Some []) [] \<noteq>
     Mappers_ToInternal logging (Mappers scalar_mapper) (Some []) []"
  by (simp add: typeMapper_ToInternal_def scalar_mapper_def logging_def Mappers_ToInternal_def
      entries_def mutate_def errors_Join_def List.map_filter_simps addError_def)

section \<open>Properties and theorems of modify-schema\<close>

lemma ModifySchema_fields_resolutions:
  "ModifySchema_fields env fs t r =
     (case resolutions env fs r of
        (xs, r') \<Rightarrow>
          (t\<lparr>subSchemas := bucket_from SubSchemas (subSchemas t) xs,
             subArraySchemas := bucket_from SubArraySchemas (subArraySchemas t) xs,
             subMapSchemas := bucket_from SubMapSchemas (subMapSchemas t) xs\<rparr>, r'))"
proof (induction fs arbitrary: t r)
  case Nil
  then show ?case by simp
next
  case (Cons a fs)
  obtain name field where a: "a = (name, field)" by (cases a)
  obtain s r1 where d: "doSchema env r (snd (classify env (Type field))) False = (s, r1)"
    by (metis prod.exhaust)
  obtain xs r2 where x: "resolutions env fs r1 = (xs, r2)" by (metis prod.exhaust)
  show ?case
    using d x
    by (cases s; cases "IsArrayType env (Type field)"; cases "IsMapType env (Type field)")
       (simp_all add: a Cons.IH classify_def put_target_def)
qed

lemma typeMapper_ModifySchema_rebuilt:
  "typeMapper_ModifySchema env impl t schema r w =
     (case Mappers_ModifySchema impl (Mappers t) schema
             (snd (resolutions env
                (ResourceFields (case InternalSchema schema of None \<Rightarrow> schema | Some i \<Rightarrow> i)) r)) w of
        ((e, s', r'), w') \<Rightarrow> ((e, rebuilt env t schema r, s', r'), w'))"
  by (simp add: typeMapper_ModifySchema_def ModifySchema_fields_resolutions rebuilt_def Let_def
      split: prod.splits)

lemma keys_bucket_from:
  "fst ` set (bucket_from tg b xs) = fst ` set b \<union> {n. \<exists>s. (n, tg, Some s) \<in> set xs}"
proof (induction xs arbitrary: b)
  case Nil
  then show ?case by simp
next
  case (Cons a xs)
  obtain n tg' s where a: "a = (n, tg', s)" by (cases a)
  show ?case
    by (cases s) (auto simp: a Cons.IH dom_update)
qed

lemma test_resolutions:
  "resolutions test_env (ResourceFields test_schema) test_registry =
     ([(''a'', SubSchemas, Some (Schema ''A'' [] None None)),
       (''b'', SubArraySchemas, None),
       (''c'', SubMapSchemas, Some (Schema ''C'' [] None (Some 4))),
       (''n'', SubSchemas, None)], test_registry)"
  by (simp add: test_env_def test_schema_def test_registry_def classify_def)

lemma test_rebuilt:
  "rebuilt test_env t test_schema test_registry =
     t\<lparr>subSchemas := [(''a'', Schema ''A'' [] None None)], subArraySchemas := [],
       subMapSchemas := [(''c'', Schema ''C'' [] None (Some 4))], typeName := ''Parent''\<rparr>"
proof -
  have i: "InternalSchema test_schema = None" "ID test_schema = ''Parent''"
    by (simp_all add: test_schema_def)
  show ?thesis
    by (simp add: rebuilt_def i test_resolutions)
qed

text \<open>
  C7. Modify-schema leaves the type mapper with the three buckets rebuilt from nothing and
  the type name taken from the schema's identifier, whatever the buckets and the type name
  were before the call. The fields classified are the schema's own, unless it has an
  internal schema, whose fields are then used. A type string that is an array-of-T goes
  to the array bucket with T resolved (also when it is a map-of-T as well); else one that
  is a map-of-T goes to the map bucket with T resolved; any other goes to the object
  bucket and is resolved itself.
\<close>

theorem typeMapper_ModifySchema_rebuilds:
  "fst (snd (fst (typeMapper_ModifySchema env impl t schema r w))) = rebuilt env t schema r
   \<and> typeMapper_ModifySchema env impl
        (t\<lparr>subSchemas := a, subArraySchemas := b, subMapSchemas := c, typeName := n\<rparr>)
        schema r w =
      typeMapper_ModifySchema env impl
        (t\<lparr>subSchemas := [], subArraySchemas := [], subMapSchemas := [], typeName := []\<rparr>)
        schema r w
   \<and> typeName (rebuilt env t schema r) = ID schema
   \<and> subSchemas (rebuilt env t (Schema i fs None m) r) =
        bucket_from SubSchemas [] (fst (resolutions env fs r))
   \<and> subArraySchemas (rebuilt env t (Schema i fs None m) r) =
        bucket_from SubArraySchemas [] (fst (resolutions env fs r))
   \<and> subMapSchemas (rebuilt env t (Schema i fs None m) r) =
        bucket_from SubMapSchemas [] (fst (resolutions env fs r))
   \<and> subSchemas (rebuilt env t (Schema i fs (Some internal) m) r) =
        bucket_from SubSchemas [] (fst (resolutions env (ResourceFields internal) r))
   \<and> subArraySchemas (rebuilt env t (Schema i fs (Some internal) m) r) =
        bucket_from SubArraySchemas [] (fst (resolutions env (ResourceFields internal) r))
   \<and> subMapSchemas (rebuilt env t (Schema i fs (Some internal) m) r) =
        bucket_from SubMapSchemas [] (fst (resolutions env (ResourceFields internal) r))
   \<and> classify env ft =
        (if IsArrayType env ft then (SubArraySchemas, SubType env ft)
         else if IsMapType env ft then (SubMapSchemas, SubType env ft)
         else (SubSchemas, ft))"
proof -
  have 1: "fst (snd (fst (typeMapper_ModifySchema env impl t schema r w))) = rebuilt env t schema r"
    by (simp add: typeMapper_ModifySchema_rebuilt split: prod.splits)
  have 2: "typeMapper_ModifySchema env impl
        (t\<lparr>subSchemas := a, subArraySchemas := b, subMapSchemas := c, typeName := n\<rparr>)
        schema r w =
      typeMapper_ModifySchema env impl
        (t\<lparr>subSchemas := [], subArraySchemas := [], subMapSchemas := [], typeName := []\<rparr>)
        schema r w"
    by (simp add: typeMapper_ModifySchema_def)
  show ?thesis
    by (simp add: 1 2 rebuilt_def Let_def classify_def)
qed

theorem typeMapper_ModifySchema_rebuilds_witness:
  "typeMapper_ModifySchema test_env logging stale_mapper test_schema test_registry [] =
     ((Some (Err ''odd''),
       \<lparr> Mappers = [0, 1, 2], root = True, typeName = ''Parent'',
         subSchemas = [(''a'', Schema ''A'' [] None None)], subArraySchemas = [],
         subMapSchemas = [(''c'', Schema ''C'' [] None (Some 4))] \<rparr>,
       test_schema, test_registry), [0, 1])"
proof -
  have "fst (snd (fst (typeMapper_ModifySchema test_env logging stale_mapper test_schema
      test_registry []))) = rebuilt test_env stale_mapper test_schema test_registry"
    by (rule typeMapper_ModifySchema_rebuilds
      [where env = test_env and impl = logging and t = stale_mapper and schema = test_schema
        and r = test_registry and w = "[]", THEN conjunct1])
  moreover have "typeMapper_ModifySchema test_env logging stale_mapper test_schema test_registry [] =
      ((Some (Err ''odd''), rebuilt test_env stale_mapper test_schema test_registry,
        test_schema, test_registry), [0, 1])"
  proof -
    have i: "InternalSchema test_schema = None" by (simp add: test_schema_def)
    have m: "Mappers stale_mapper = [0, 1, 2]" by (simp add: stale_mapper_def)
    show ?thesis
      by (simp add: typeMapper_ModifySchema_rebuilt i m test_resolutions logging_def)
  qed
  ultimately show ?thesis
    by (simp add: test_rebuilt stale_mapper_def)
qed

text \<open>
  C10. Modify-schema rebuilds the buckets and the type name first and runs the chain's
  modify-schema afterwards, on the registry as the lookups left it: the error, schema,
  registry and state it returns are the chain's, and the type mapper it leaves is the
  rebuilt one whatever the chain returns, an error included. Two calls that differ only in
  the mappers' methods and the state leave the same type mapper.
\<close>

theorem typeMapper_ModifySchema_rebuilt_before_chain:
  "typeMapper_ModifySchema env impl t schema r w =
     (case Mappers_ModifySchema impl (Mappers t) schema
             (snd (resolutions env
                (ResourceFields (case InternalSchema schema of None \<Rightarrow> schema | Some i \<Rightarrow> i)) r)) w of
        ((e, s', r'), w') \<Rightarrow> ((e, rebuilt env t schema r, s', r'), w'))
   \<and> fst (snd (fst (typeMapper_ModifySchema env impl t schema r w))) =
       fst (snd (fst (typeMapper_ModifySchema env impl' t schema r w')))"
  by (simp add: typeMapper_ModifySchema_rebuilt split: prod.splits)

theorem typeMapper_ModifySchema_rebuilt_before_chain_witness:
  "fst (fst (typeMapper_ModifySchema test_env logging stale_mapper test_schema test_registry [])) =
     Some (Err ''odd'')
   \<and> fst (snd (fst (typeMapper_ModifySchema test_env logging stale_mapper test_schema
        test_registry []))) =
       \<lparr> Mappers = [0, 1, 2], root = True, typeName = ''Parent'',
         subSchemas = [(''a'', Schema ''A'' [] None None)], subArraySchemas = [],
         subMapSchemas = [(''c'', Schema ''C'' [] None (Some 4))] \<rparr>"
proof -
  have i: "InternalSchema test_schema = None" by (simp add: test_schema_def)
  have m: "Mappers stale_mapper = [0, 1, 2]" by (simp add: stale_mapper_def)
  have c: "Mappers_ModifySchema logging [0, 1, 2] test_schema test_registry [] =
      ((Some (Err ''odd''), test_schema, test_registry), [0, 1])"
    by (simp add: logging_def)
  have e: "typeMapper_ModifySchema test_env logging stale_mapper test_schema test_registry [] =
     (case Mappers_ModifySchema logging (Mappers stale_mapper) test_schema
             (snd (resolutions test_env
                (ResourceFields (case InternalSchema test_schema of None \<Rightarrow> test_schema | Some i \<Rightarrow> i))
                test_registry)) [] of
        ((e, s', r'), w') \<Rightarrow>
          ((e, rebuilt test_env stale_mapper test_schema test_registry, s', r'), w'))"
    by (rule typeMapper_ModifySchema_rebuilt_before_chain
      [where env = test_env and impl = logging and t = stale_mapper and schema = test_schema
        and r = test_registry and w = "[]", THEN conjunct1])
  have "typeMapper_ModifySchema test_env logging stale_mapper test_schema test_registry [] =
      ((Some (Err ''odd''), rebuilt test_env stale_mapper test_schema test_registry,
        test_schema, test_registry), [0, 1])"
    by (simp only: e i m option.case test_resolutions snd_conv c prod.case)
  then show ?thesis
    by (simp add: test_rebuilt stale_mapper_def)
qed



lemma visits_without_nil: "visits kind impl (without_nil b) = visits kind impl b"
  by (induction b) (auto simp: visits_Cons without_nil_def split: option.splits)

lemma ModifySchema_fields_unresolved:
  "doSchema env r (snd (classify env (Type field))) False = (None, r1) \<Longrightarrow>
     ModifySchema_fields env ((name, field) # rest) t r = ModifySchema_fields env rest t r1"
  by (cases "IsArrayType env (Type field)"; cases "IsMapType env (Type field)")
     (simp_all add: classify_def)

lemma typeMapper_ModifySchema_error:
  "fst (fst (typeMapper_ModifySchema env impl t schema r w)) =
     fst (fst (Mappers_ModifySchema impl (Mappers t) schema
        (snd (resolutions env
           (ResourceFields (case InternalSchema schema of None \<Rightarrow> schema | Some i \<Rightarrow> i)) r)) w))"
proof -
  obtain e s' r' w' where c: "Mappers_ModifySchema impl (Mappers t) schema
        (snd (resolutions env
           (ResourceFields (case InternalSchema schema of None \<Rightarrow> schema | Some i \<Rightarrow> i)) r)) w =
        ((e, s', r'), w')"
    by (metis prod.exhaust)
  show ?thesis
    by (simp add: typeMapper_ModifySchema_rebuilt c)
qed

text \<open>
  C2 (amended). A registry lookup has no error result: it returns a Schema or nil. A field
  for which it returns nil is entered in no bucket and the loop goes on with the fields
  after it, on the registry as the lookup left it. The error modify-schema returns is the
  error of the chain's modify-schema, run after all fields have been classified; with an
  empty chain it is nil.
\<close>

theorem typeMapper_ModifySchema_unresolved_skipped:
  "(doSchema env r (snd (classify env (Type field))) False = (None, r1) \<longrightarrow>
      ModifySchema_fields env ((name, field) # rest) t r = ModifySchema_fields env rest t r1)
   \<and> fst (fst (typeMapper_ModifySchema env impl t' schema r w)) =
       fst (fst (Mappers_ModifySchema impl (Mappers t') schema
          (snd (resolutions env
             (ResourceFields (case InternalSchema schema of None \<Rightarrow> schema | Some i \<Rightarrow> i)) r)) w))
   \<and> (Mappers t' = [] \<longrightarrow> fst (fst (typeMapper_ModifySchema env impl t' schema r w)) = None)"
proof (intro conjI impI)
  assume "doSchema env r (snd (classify env (Type field))) False = (None, r1)"
  then show "ModifySchema_fields env ((name, field) # rest) t r = ModifySchema_fields env rest t r1"
    by (rule ModifySchema_fields_unresolved)
next
  show "fst (fst (typeMapper_ModifySchema env impl t' schema r w)) =
       fst (fst (Mappers_ModifySchema impl (Mappers t') schema
          (snd (resolutions env
             (ResourceFields (case InternalSchema schema of None \<Rightarrow> schema | Some i \<Rightarrow> i)) r)) w))"
    by (rule typeMapper_ModifySchema_error)
next
  assume "Mappers t' = []"
  then show "fst (fst (typeMapper_ModifySchema env impl t' schema r w)) = None"
    by (simp add: typeMapper_ModifySchema_error)
qed

theorem typeMapper_ModifySchema_unresolved_skipped_witness:
  "ModifySchema_fields test_env [(''b'', \<lparr>Type = ''array[B]''\<rparr>), (''c'', \<lparr>Type = ''map[C]''\<rparr>)]
       (stale_mapper\<lparr>subMapSchemas := []\<rparr>) test_registry =
     ModifySchema_fields test_env [(''c'', \<lparr>Type = ''map[C]''\<rparr>)]
       (stale_mapper\<lparr>subMapSchemas := []\<rparr>) test_registry
   \<and> fst (fst (typeMapper_ModifySchema test_env logging (stale_mapper\<lparr>Mappers := []\<rparr>)
        test_schema test_registry [])) = None"
proof -
  have d: "doSchema test_env test_registry (snd (classify test_env (Type \<lparr>Type = ''array[B]''\<rparr>))) False =
      (None, test_registry)"
    by (simp add: test_env_def classify_def test_registry_def)
  have m: "Mappers (stale_mapper\<lparr>Mappers := []\<rparr>) = []"
    by simp
  note th = typeMapper_ModifySchema_unresolved_skipped
      [where env = test_env and r = test_registry and field = "\<lparr>Type = ''array[B]''\<rparr>"
        and ?r1.0 = test_registry and name = "''b''" and rest = "[(''c'', \<lparr>Type = ''map[C]''\<rparr>)]"
        and t = "stale_mapper\<lparr>subMapSchemas := []\<rparr>" and impl = logging
        and t' = "stale_mapper\<lparr>Mappers := []\<rparr>" and schema = test_schema and w = "[]"]
  show ?thesis
    using th [THEN conjunct1, THEN mp, OF d] th [THEN conjunct2, THEN conjunct2, THEN mp, OF m]
    by (rule conjI)
qed

text \<open>
  C2 as stated fails: the lookup for field \<open>b\<close> returns nil, and yet modify-schema returns
  nil and field \<open>c\<close>, which comes after \<open>b\<close>, has been entered in the map bucket.
\<close>

theorem typeMapper_ModifySchema_no_abort:
  "fst (doSchema test_env test_registry ''B'' False) = None
   \<and> map fst (ResourceFields test_schema) = [''a'', ''b'', ''c'', ''n'']
   \<and> fst (fst (typeMapper_ModifySchema test_env logging (stale_mapper\<lparr>Mappers := []\<rparr>)
        test_schema test_registry [])) = None
   \<and> subMapSchemas (fst (snd (fst (typeMapper_ModifySchema test_env logging
        (stale_mapper\<lparr>Mappers := []\<rparr>) test_schema test_registry [])))) =
       [(''c'', Schema ''C'' [] None (Some 4))]"
proof -
  have i: "InternalSchema test_schema = None" by (simp add: test_schema_def)
  have e: "typeMapper_ModifySchema test_env logging (stale_mapper\<lparr>Mappers := []\<rparr>)
        test_schema test_registry [] =
      ((None, rebuilt test_env (stale_mapper\<lparr>Mappers := []\<rparr>) test_schema test_registry,
        test_schema, test_registry), [])"
    by (simp add: typeMapper_ModifySchema_rebuilt i test_resolutions)
  have 1: "fst (doSchema test_env test_registry ''B'' False) = None"
    by (simp add: test_env_def test_registry_def)
  have 2: "map fst (ResourceFields test_schema) = [''a'', ''b'', ''c'', ''n'']"
    by (simp add: test_schema_def)
  show ?thesis
    by (simp add: e 1 2 test_rebuilt)
qed


lemma typeMapper_FromInternal_without_nil:
  "typeMapper_FromInternal impl t d w =
     typeMapper_FromInternal impl
       (t\<lparr>subSchemas := without_nil (subSchemas t),
          subArraySchemas := without_nil (subArraySchemas t),
          subMapSchemas := without_nil (subMapSchemas t)\<rparr>) d w"
  by (simp add: typeMapper_FromInternal_def FromInternal_subSchemas_visits
      FromInternal_subMapSchemas_visits FromInternal_subArraySchemas_visits visits_without_nil)

lemma typeMapper_ToInternal_without_nil:
  "typeMapper_ToInternal impl t d w =
     typeMapper_ToInternal impl
       (t\<lparr>subSchemas := without_nil (subSchemas t),
          subArraySchemas := without_nil (subArraySchemas t),
          subMapSchemas := without_nil (subMapSchemas t)\<rparr>) d w"
  by (simp add: typeMapper_ToInternal_visits visits_without_nil)

lemma typeMapper_ModifySchema_state:
  "fst (snd (fst (typeMapper_ModifySchema env impl t schema r w))) = rebuilt env t schema r"
  by (simp add: typeMapper_ModifySchema_rebuilt split: prod.splits)

text \<open>
  C4 (amended). After modify-schema a field is a member of a bucket exactly when it was
  classified for that bucket and the registry returned a Schema for it, whether or not
  that Schema has a Mapper. A Schema without a Mapper is passed over when the data is
  traversed: from-internal and to-internal do what they would do had the buckets no such
  fields.
\<close>

theorem typeMapper_nil_Mapper_recorded_but_skipped:
  "typeMapper_FromInternal impl' t d w' =
       typeMapper_FromInternal impl'
         (t\<lparr>subSchemas := without_nil (subSchemas t),
            subArraySchemas := without_nil (subArraySchemas t),
            subMapSchemas := without_nil (subMapSchemas t)\<rparr>) d w'
   \<and> typeMapper_ToInternal impl' t d w' =
       typeMapper_ToInternal impl'
         (t\<lparr>subSchemas := without_nil (subSchemas t),
            subArraySchemas := without_nil (subArraySchemas t),
            subMapSchemas := without_nil (subMapSchemas t)\<rparr>) d w'
   \<and> fst (snd (fst (typeMapper_ModifySchema env impl t schema r w))) = rebuilt env t schema r
   \<and> fst ` set (subSchemas (rebuilt env t schema r)) =
     {n. \<exists>s. (n, SubSchemas, Some s) \<in> set (fst (resolutions env
        (ResourceFields (case InternalSchema schema of None \<Rightarrow> schema | Some i \<Rightarrow> i)) r))}
   \<and> fst ` set (subArraySchemas (rebuilt env t schema r)) =
     {n. \<exists>s. (n, SubArraySchemas, Some s) \<in> set (fst (resolutions env
        (ResourceFields (case InternalSchema schema of None \<Rightarrow> schema | Some i \<Rightarrow> i)) r))}
   \<and> fst ` set (subMapSchemas (rebuilt env t schema r)) =
     {n. \<exists>s. (n, SubMapSchemas, Some s) \<in> set (fst (resolutions env
        (ResourceFields (case InternalSchema schema of None \<Rightarrow> schema | Some i \<Rightarrow> i)) r))}"
proof -
  show ?thesis
    apply (intro conjI)
         apply (rule typeMapper_FromInternal_without_nil)
        apply (rule typeMapper_ToInternal_without_nil)
       apply (rule typeMapper_ModifySchema_state)
      apply (simp_all add: rebuilt_def Let_def keys_bucket_from)
    done
qed

theorem typeMapper_nil_Mapper_recorded_but_skipped_witness:
  "fst ` set (subSchemas (fst (snd (fst (typeMapper_ModifySchema test_env logging stale_mapper
      test_schema test_registry []))))) = {''a''}
   \<and> typeMapper_FromInternal logging
       (rebuilt test_env (stale_mapper\<lparr>Mappers := []\<rparr>) test_schema test_registry)
       (Some [(''a'', VMap []), (''c'', VMap [(''k'', VMap [])])]) [] =
      (Some [(''a'', VMap []), (''c'', VMap [(''k'', VMap [])])], [4])"
proof -
  let ?t = "rebuilt test_env (stale_mapper\<lparr>Mappers := []\<rparr>) test_schema test_registry"
  let ?d = "Some [(''a'', VMap []), (''c'', VMap [(''k'', VMap [])])]"
  have a: "fst ` set (subSchemas (rebuilt test_env stale_mapper test_schema test_registry)) = {''a''}"
    by (simp add: test_rebuilt)
  have t: "?t\<lparr>subSchemas := without_nil (subSchemas ?t),
            subArraySchemas := without_nil (subArraySchemas ?t),
            subMapSchemas := without_nil (subMapSchemas ?t)\<rparr> =
      \<lparr> Mappers = [], root = True, typeName = ''Parent'', subSchemas = [],
        subArraySchemas = [], subMapSchemas = [(''c'', Schema ''C'' [] None (Some 4))] \<rparr>"
    by (simp add: test_rebuilt without_nil_def stale_mapper_def)
  have "typeMapper_FromInternal logging ?t ?d [] =
      typeMapper_FromInternal logging
         (?t\<lparr>subSchemas := without_nil (subSchemas ?t),
            subArraySchemas := without_nil (subArraySchemas ?t),
            subMapSchemas := without_nil (subMapSchemas ?t)\<rparr>) ?d []"
    by (rule typeMapper_nil_Mapper_recorded_but_skipped
      [where impl' = logging and t = ?t and d = ?d and w' = "[]", THEN conjunct1])
  then have f: "typeMapper_FromInternal logging ?t ?d [] = (?d, [4])"
    by (simp only: t)
       (simp add: typeMapper_FromInternal_def at_field_def get_value_def entries_def
        as_Values_def call_val_def from_call_def logging_def put_field_def)
  have "fst (snd (fst (typeMapper_ModifySchema test_env logging stale_mapper
      test_schema test_registry []))) = rebuilt test_env stale_mapper test_schema test_registry"
    by (rule typeMapper_nil_Mapper_recorded_but_skipped
      [where env = test_env and impl = logging and t = stale_mapper and schema = test_schema
        and r = test_registry and w = "[]", THEN conjunct2, THEN conjunct2, THEN conjunct1])
  then show ?thesis using a f by simp
qed

text \<open>
  C4 as stated fails: the Schema the registry returns for \<open>A\<close> has no Mapper, and field
  \<open>a\<close> of type \<open>A\<close> is a member of the object bucket after modify-schema.
\<close>

theorem typeMapper_nil_Mapper_in_bucket:
  "fst (doSchema test_env test_registry ''A'' False) = Some (Schema ''A'' [] None None)
   \<and> Mapper (Schema ''A'' [] None None :: nat Schema) = None
   \<and> subSchemas (fst (snd (fst (typeMapper_ModifySchema test_env logging stale_mapper
        test_schema test_registry [])))) = [(''a'', Schema ''A'' [] None None)]"
proof -
  have 1: "fst (doSchema test_env test_registry ''A'' False) = Some (Schema ''A'' [] None None)"
    by (simp add: test_env_def test_registry_def)
  show ?thesis
    by (simp add: typeMapper_ModifySchema_state 1 test_rebuilt)
qed

section \<open>The round trip\<close>






lemma nil_stable_as_Map [simp]: "nil_stable (as_Map f)"
  by (simp add: nil_stable_def as_Map_def call_val_def split: prod.splits)

lemma nil_stable_as_Slice [simp]: "nil_stable (as_Slice f)"
  by (simp add: nil_stable_def as_Slice_def)

lemma nil_stable_as_Values [simp]: "nil_stable (as_Values f)"
  by (simp add: nil_stable_def as_Values_def)



















text \<open>
  The buckets that modify-schema builds from a schema whose field names are distinct
  have no field name twice, within a bucket or across buckets.
\<close>

lemma distinct_bucket_from:
  "distinct (map fst b) \<Longrightarrow> distinct (map fst (bucket_from tg b xs))"
proof (induction xs arbitrary: b)
  case Nil
  then show ?case by simp
next
  case (Cons a xs)
  obtain n tg' s where a: "a = (n, tg', s)" by (cases a)
  show ?case
    using Cons.prems by (cases s) (auto simp: a intro!: Cons.IH distinct_update)
qed

lemma map_fst_resolutions: "map fst (fst (resolutions env fs r)) = map fst fs"
proof (induction fs arbitrary: r)
  case Nil
  then show ?case by simp
next
  case (Cons a fs)
  obtain n f where a: "a = (n, f)" by (cases a)
  obtain s r1 where d: "doSchema env r (snd (classify env (Type f))) False = (s, r1)"
    by (metis prod.exhaust)
  obtain xs r2 where x: "resolutions env fs r1 = (xs, r2)" by (metis prod.exhaust)
  from Cons.IH [of r1] have "map fst xs = map fst fs" by (simp add: x)
  then show ?case by (simp add: a d x)
qed

lemma rebuilt_distinct_names:
  assumes "distinct (map fst (ResourceFields (case InternalSchema schema of None \<Rightarrow> schema | Some i \<Rightarrow> i)))"
  shows "distinct (map fst (subSchemas (rebuilt env t schema r) @
     subMapSchemas (rebuilt env t schema r) @ subArraySchemas (rebuilt env t schema r)))"
proof -
  let ?xs = "fst (resolutions env
     (ResourceFields (case InternalSchema schema of None \<Rightarrow> schema | Some i \<Rightarrow> i)) r)"
  have d: "distinct (map fst ?xs)" using assms by (simp add: map_fst_resolutions)
  have one: "tg = tg'" if "(n, tg, s) \<in> set ?xs" "(n, tg', s') \<in> set ?xs" for n tg tg' s s'
    using d that by (meson eq_key_imp_eq_value prod.inject)
  have k: "fst ` set (bucket_from tg [] ?xs) = {n. \<exists>s. (n, tg, Some s) \<in> set ?xs}" for tg
    by (simp add: keys_bucket_from)
  have dj: "fst ` set (bucket_from tg [] ?xs) \<inter> fst ` set (bucket_from tg' [] ?xs) = {}"
    if "tg \<noteq> tg'" for tg tg'
    unfolding k using one that by blast
  have di: "distinct (map fst (bucket_from tg [] ?xs))" for tg
    by (rule distinct_bucket_from) simp
  show ?thesis
    using di dj [of SubSchemas SubMapSchemas] dj [of SubSchemas SubArraySchemas]
      dj [of SubMapSchemas SubArraySchemas]
    by (simp add: rebuilt_def Let_def Int_Un_distrib)
qed






end
